theory Spec2Isabelle
  imports Main "HOL-Library.Word"
begin

section \<open>Expression nodes\<close>

text \<open>
  Modelled from the spec: the enumeration \<open>Operation\<close> and the vertex classes are
  declared in \<open>compiler/operation.h\<close> and \<open>compiler/vertex.h\<close>, which are not among
  the sources; the types below follow section 3 of the spec and the way the visitors use
  the nodes.

  The node kinds are the enumerators of \<open>Operation\<close> that the dispatch switch of
  \<open>ConstManipulations::visit\<close> names, grouped the way the switch groups them, plus
  \<open>op_concat\<close> and \<open>op_string_build\<close> (tested by the \<open>on_non_const\<close> overrides).
  Every other enumerator is \<open>op_other k\<close>.
\<close>

datatype conv_op =
  op_conv_int | op_conv_int_l | op_conv_float | op_conv_string | op_conv_string_l
  | op_conv_array | op_conv_array_l | op_conv_object | op_conv_bool | op_conv_var
  | op_conv_uint | op_conv_long | op_conv_ulong | op_conv_regexp

datatype trivial_op =
  op_int_const | op_uint_const | op_long_const | op_ulong_const | op_float_const
  | op_string | op_false | op_true | op_null

datatype unary_op = op_minus | op_plus | op_not

datatype binary_op =
  op_add | op_mul | op_sub | op_div | op_mod | op_pow | op_and | op_or | op_xor
  | op_shl | op_shr

datatype other_op = op_concat | op_string_build | op_other nat

datatype Operation =
  ConvOp conv_op | TrivialOp trivial_op | UnaryOp unary_op | BinaryOp binary_op
  | op_array | op_double_arrow | op_var | op_instance_prop | op_func_name
  | op_define_val | OtherOp other_op

datatype extra_type = op_ex_none | op_ex_var_const | op_ex_other nat

text \<open>
  A \<open>VertexPtr\<close> is a nullable pointer to a node: \<open>Null\<close> is the empty pointer, every
  other constructor is one vertex class with the payload that class has
  (\<open>meta_op_unary\<close> has \<open>expr()\<close>, \<open>meta_op_binary\<close> has \<open>lhs()\<close> and \<open>rhs()\<close>,
  \<open>op_double_arrow\<close> has \<open>key()\<close> and \<open>value()\<close>, \<open>op_array\<close> has \<open>args()\<close>,
  \<open>op_instance_prop\<close> has \<open>instance()\<close> and its property name, \<open>op_func_name\<close> has
  its \<open>str_val\<close>, \<open>op_define_val\<close> the name of the define it stands for).  The optional
  string of \<open>Trivial\<close> and \<open>Other\<close> is the \<open>str_val\<close> of the classes that have one.
  The list of \<open>Other\<close> is what \<open>for (auto i : *v)\<close> iterates over.
  A variable reference carries its name, its \<open>extra_type\<close> and the variable entity
  \<open>get_var_id()\<close> points to (absent when unbound), with the entity's \<open>is_constant()\<close> and
  \<open>init_val\<close>; the entity is unfolded into the node, so an initializer that refers back
  to its own variable is not represented.
  In-place updates of children are modelled by returning the rebuilt node; the tree is
  assumed to own its children (no child shared between two parents).
\<close>

datatype vertex =
  Null
  | Trivial trivial_op "string option"
  | Conv conv_op vertex
  | Unary unary_op vertex
  | Binary binary_op vertex vertex
  | Array "vertex list"
  | DoubleArrow vertex vertex
  | Var string extra_type "VarData option"
  | InstanceProp vertex string
  | FuncName string
  | DefineVal string
  | Other other_op "string option" "vertex list"
and VarData = VarData (is_constant: bool) (init_val: vertex)

text \<open>\<open>DefineData\<close>: of a define, only its stored value expression \<open>val\<close> is used.\<close>

record DefineData =
  val :: vertex

section \<open>Results: returning, crashing, not returning\<close>

datatype crash = NullDeref | GetStringUnsupported | AssertFailed string

text \<open>
  A computation runs on the state \<open>'s\<close> of the visitor object (and of the channels it
  writes to).  \<open>None\<close>: the recursion budget ran out (the call did not return);
  \<open>Some (Inl c, s)\<close>: the process crashed in state \<open>s\<close>;
  \<open>Some (Inr x, s)\<close>: the call returned \<open>x\<close> in state \<open>s\<close>.
\<close>

type_synonym ('a, 's) res = "((crash + 'a) \<times> 's) option"

type_synonym ('a, 's) run = "'s \<Rightarrow> ('a, 's) res"

definition ret :: "'a \<Rightarrow> ('a, 's) run" where
  "ret x = (\<lambda>s. Some (Inr x, s))"

definition abort :: "crash \<Rightarrow> ('a, 's) run" where
  "abort c = (\<lambda>s. Some (Inl c, s))"

definition seq :: "('a, 's) run \<Rightarrow> ('a \<Rightarrow> ('b, 's) run) \<Rightarrow> ('b, 's) run" where
  "seq m f = (\<lambda>s. case m s of
                     None \<Rightarrow> None
                   | Some (Inl c, s') \<Rightarrow> Some (Inl c, s')
                   | Some (Inr x, s') \<Rightarrow> f x s')"

section \<open>External collaborators\<close>

text \<open>
  The collaborators the visitors call but that are not part of the given sources are
  parameters: the define-name canonicalization \<open>resolve_define_name\<close>, the define table
  \<open>G->get_define\<close> (\<open>None\<close> is the empty \<open>DefinePtr\<close>), what a variable or define-value
  reference denotes (\<open>actual_of\<close>), the textual tag \<open>OpInfo::str\<close> of a node kind, and
  \<open>string_hash\<close> (its result already widened to \<open>long long\<close>).
\<close>

record env =
  resolve_define_name :: "string \<Rightarrow> string"
  get_define :: "string \<Rightarrow> DefineData option"
  actual_of :: "vertex \<Rightarrow> vertex"
  op_str :: "Operation \<Rightarrow> string"
  string_hash :: "string \<Rightarrow> 64 word"

text \<open>\<open>v->type()\<close>; dereferencing the empty pointer crashes.\<close>

fun vtype :: "vertex \<Rightarrow> (Operation, 's) run" where
  "vtype Null = abort NullDeref"
| "vtype (Trivial op str) = ret (TrivialOp op)"
| "vtype (Conv op e) = ret (ConvOp op)"
| "vtype (Unary op e) = ret (UnaryOp op)"
| "vtype (Binary op l r) = ret (BinaryOp op)"
| "vtype (Array xs) = ret op_array"
| "vtype (DoubleArrow k v) = ret op_double_arrow"
| "vtype (Var n ex vid) = ret op_var"
| "vtype (InstanceProp i p) = ret op_instance_prop"
| "vtype (FuncName n) = ret op_func_name"
| "vtype (DefineVal n) = ret op_define_val"
| "vtype (Other op str xs) = ret (OtherOp op)"

text \<open>
  Modelled from the spec: the declaration of the vertex classes (\<open>compiler/vertex.h\<close>) is
  not among the sources.  A node has a string representation when its class carries a
  \<open>str_val\<close>: literals and other nodes that were built with one, variable references
  (their name), instance-property references (the property name) and function-name
  references (the identifier).  Conversions, operators, arrays, key-value pairs and
  define-value references carry none.
\<close>

fun get_string_opt :: "vertex \<Rightarrow> string option" where
  "get_string_opt (Trivial op str) = str"
| "get_string_opt (Var n ex vid) = Some n"
| "get_string_opt (InstanceProp i p) = Some p"
| "get_string_opt (FuncName n) = Some n"
| "get_string_opt (Other op str xs) = str"
| "get_string_opt v = None"

fun has_get_string :: "vertex \<Rightarrow> (bool, 's) run" where
  "has_get_string Null = abort NullDeref"
| "has_get_string v = ret (get_string_opt v \<noteq> None)"

text \<open>
  Modelled from the spec: \<open>get_string()\<close> of a node without a string representation is
  an unrecoverable error (section 4.4: "a child without a string representation is an
  unrecoverable error").
\<close>

fun get_string :: "vertex \<Rightarrow> (string, 's) run" where
  "get_string Null = abort NullDeref"
| "get_string v =
     (case get_string_opt v of Some str \<Rightarrow> ret str | None \<Rightarrow> abort GetStringUnsupported)"

text \<open>
  Modelled from the spec: \<open>GenTree::get_actual_value\<close> is declared in
  \<open>compiler/gentree.h\<close>, not among the sources.  Section 6: it "returns the node a
  variable/define reference ultimately denotes, or the node itself if it denotes nothing
  further".  What a reference denotes is the parameter \<open>actual_of\<close>.
\<close>

fun get_actual_value :: "env \<Rightarrow> vertex \<Rightarrow> (vertex, 's) run" where
  "get_actual_value G Null = abort NullDeref"
| "get_actual_value G (Var n ex vid) = ret (actual_of G (Var n ex vid))"
| "get_actual_value G (DefineVal n) = ret (actual_of G (DefineVal n))"
| "get_actual_value G v = ret v"

text \<open>
  Modelled from the spec: the macro \<open>kphp_error(cond, msg)\<close> (\<open>compiler/stage.h\<close>, not
  among the sources) reports \<open>msg\<close> through the diagnostic channel when \<open>cond\<close> is false
  and returns (section 6: "without necessarily aborting immediately").  The channel is the
  list of the messages reported so far.
\<close>

definition kphp_error :: "bool \<Rightarrow> string \<Rightarrow> (unit, string list) run" where
  "kphp_error cond msg = (\<lambda>diag. Some (Inr (), if cond then diag else diag @ [msg]))"

text \<open>
  Modelled from the spec: \<open>kphp_assert_msg(false, msg)\<close> is the fatal-abort primitive
  (section 6: "terminates the process with a message").
\<close>

definition kphp_assert_msg_false :: "string \<Rightarrow> ('a, 's) run" where
  "kphp_assert_msg_false msg = abort (AssertFailed msg)"

section \<open>The dispatch core \<open>ConstManipulations<T>\<close>\<close>

text \<open>
  The virtual hooks of the template, as a record of computations over a visitor state
  \<open>'s\<close> (the mutable fields of the visitor object).  A hook receives the typed view of
  the node that \<open>v.as<...>()\<close> gives it.  The two boolean array probes may rewrite the
  element they are shown in place (\<open>MakeConst\<close> does); they return the verdict together
  with the element as it is after the call.  \<open>on_array\<close> is virtual as well:
  \<open>on_array_override = None\<close> keeps the orchestration of the template.
\<close>

record ('t, 's) hooks =
  on_trivial :: "trivial_op \<Rightarrow> string option \<Rightarrow> ('t, 's) run"
  on_conv :: "conv_op \<Rightarrow> vertex \<Rightarrow> ('t, 's) run"
  on_unary :: "unary_op \<Rightarrow> vertex \<Rightarrow> ('t, 's) run"
  on_binary :: "binary_op \<Rightarrow> vertex \<Rightarrow> vertex \<Rightarrow> ('t, 's) run"
  on_double_arrow :: "vertex \<Rightarrow> vertex \<Rightarrow> ('t, 's) run"
  on_array_double_arrow :: "vertex \<Rightarrow> vertex \<Rightarrow> (bool \<times> vertex, 's) run"
  on_array_value :: "vertex list \<Rightarrow> nat \<Rightarrow> (bool \<times> vertex, 's) run"
  on_array_finish :: "vertex list \<Rightarrow> ('t, 's) run"
  on_func_name :: "string \<Rightarrow> ('t, 's) run"
  on_var :: "string \<Rightarrow> extra_type \<Rightarrow> VarData option \<Rightarrow> ('t, 's) run"
  on_instance_prop :: "vertex \<Rightarrow> string \<Rightarrow> ('t, 's) run"
  on_define_val :: "string \<Rightarrow> ('t, 's) run"
  on_non_const :: "vertex \<Rightarrow> ('t, 's) run"
  on_array_override :: "(vertex list \<Rightarrow> ('t, 's) run) option"

text \<open>
  The default hook bodies: each delegates to (the final overrider of) \<open>on_non_const\<close>,
  the two probes answer \<open>false\<close>.
\<close>

definition ConstManipulations :: "(vertex \<Rightarrow> ('t, 's) run) \<Rightarrow> ('t, 's) hooks" where
  "ConstManipulations nc =
     \<lparr> on_trivial = (\<lambda>op str. nc (Trivial op str)),
       on_conv = (\<lambda>op e. nc (Conv op e)),
       on_unary = (\<lambda>op e. nc (Unary op e)),
       on_binary = (\<lambda>op l r. nc (Binary op l r)),
       on_double_arrow = (\<lambda>k v. nc (DoubleArrow k v)),
       on_array_double_arrow = (\<lambda>k v. ret (False, DoubleArrow k v)),
       on_array_value = (\<lambda>args ind. ret (False, args ! ind)),
       on_array_finish = (\<lambda>args. nc (Array args)),
       on_func_name = (\<lambda>n. nc (FuncName n)),
       on_var = (\<lambda>n ex vid. nc (Var n ex vid)),
       on_instance_prop = (\<lambda>i p. nc (InstanceProp i p)),
       on_define_val = (\<lambda>n. nc (DefineVal n)),
       on_non_const = nc,
       on_array_override = None \<rparr>"

text \<open>
  \<open>ConstManipulations::on_array\<close>: the loop \<open>for (i = 0; i < arr.size(); ++i)\<close> with
  \<open>pre\<close> the elements already probed (as the probes left them), \<open>cur = arr[i]\<close> and
  \<open>i = length pre\<close>.
\<close>

fun on_array_loop :: "('t, 's) hooks \<Rightarrow> vertex list \<Rightarrow> vertex list \<Rightarrow> ('t, 's) run" where
  "on_array_loop h pre [] = on_array_finish h pre"
| "on_array_loop h pre (cur # rest) =
     seq (case cur of
            Null \<Rightarrow> abort NullDeref
          | DoubleArrow k v \<Rightarrow> on_array_double_arrow h k v
          | _ \<Rightarrow> on_array_value h (pre @ cur # rest) (length pre))
         (\<lambda>(accepted, cur').
            if \<not> accepted then on_non_const h (Array (pre @ cur' # rest))
            else on_array_loop h (pre @ [cur']) rest)"

definition on_array :: "('t, 's) hooks \<Rightarrow> vertex list \<Rightarrow> ('t, 's) run" where
  "on_array h args = on_array_loop h [] args"

text \<open>\<open>ConstManipulations::visit\<close>: the switch on \<open>v->type()\<close>.\<close>

fun visit :: "('t, 's) hooks \<Rightarrow> vertex \<Rightarrow> ('t, 's) run" where
  "visit h Null = abort NullDeref"
| "visit h (Conv op e) = on_conv h op e"
| "visit h (Trivial op str) = on_trivial h op str"
| "visit h (Unary op e) = on_unary h op e"
| "visit h (Binary op l r) = on_binary h op l r"
| "visit h (Array args) =
     (case on_array_override h of
        None \<Rightarrow> on_array h args
      | Some f \<Rightarrow> f args)"
| "visit h (Var n ex vid) = on_var h n ex vid"
| "visit h (InstanceProp i p) = on_instance_prop h i p"
| "visit h (FuncName n) = on_func_name h n"
| "visit h (DefineVal n) = on_define_val h n"
| "visit h (DoubleArrow k v) = on_double_arrow h k v"
| "visit h (Other op str xs) = on_non_const h (Other op str xs)"

section \<open>\<open>CheckConst\<close>\<close>

text \<open>
  The hooks \<open>CheckConst\<close> overrides.  \<open>self\<close> is the virtual \<open>visit\<close> of the object the
  hooks belong to, \<open>nc\<close> its final \<open>on_non_const\<close>.  \<open>&&\<close> evaluates its right operand
  only when the left one is true.
\<close>

definition CheckConst ::
  "env \<Rightarrow> (vertex \<Rightarrow> (bool, 's) run) \<Rightarrow> (vertex \<Rightarrow> (bool, 's) run) \<Rightarrow> (bool, 's) hooks" where
  "CheckConst G self nc =
     (ConstManipulations nc)
     \<lparr> on_trivial := (\<lambda>op str. ret True),
       on_conv := (\<lambda>op e. self e),
       on_unary := (\<lambda>op e. self e),
       on_binary := (\<lambda>op l r.
          seq (get_actual_value G l) (\<lambda>lhs.
          seq (get_actual_value G r) (\<lambda>rhs.
          seq (self lhs) (\<lambda>a. if a then self rhs else ret False)))),
       on_array_double_arrow := (\<lambda>k v.
          seq (get_actual_value G k) (\<lambda>key.
          seq (get_actual_value G v) (\<lambda>value.
          seq (self key) (\<lambda>a.
            if a then seq (self value) (\<lambda>b. ret (b, DoubleArrow k v))
            else ret (False, DoubleArrow k v))))),
       on_array_value := (\<lambda>args ind.
          seq (get_actual_value G (args ! ind)) (\<lambda>e.
          seq (self e) (\<lambda>b. ret (b, args ! ind)))),
       on_var := (\<lambda>n ex vid.
          case vid of
            None \<Rightarrow> ret False
          | Some var \<Rightarrow>
              if ex = op_ex_var_const \<or> is_constant var then self (init_val var)
              else ret False),
       on_array_finish := (\<lambda>args. ret True) \<rparr>"

text \<open>
  \<open>CheckConst\<close> keeps the template's \<open>on_non_const\<close>, which returns \<open>T()\<close>, that is
  \<open>false\<close>, and has no fields.  The first argument of \<open>CheckConst_visit\<close> after the
  environment bounds the depth of the recursion.
\<close>

fun CheckConst_visit :: "env \<Rightarrow> nat \<Rightarrow> vertex \<Rightarrow> (bool, unit) run" where
  "CheckConst_visit G 0 v = (\<lambda>s. None)"
| "CheckConst_visit G (Suc n) v =
     visit (CheckConst G (CheckConst_visit G n) (\<lambda>v. ret False)) v"

text \<open>\<open>CheckConst::is_const\<close>: the outcome of \<open>check_const.visit(v)\<close>.\<close>

definition is_const :: "env \<Rightarrow> nat \<Rightarrow> vertex \<Rightarrow> (crash + bool) option" where
  "is_const G n v = map_option fst (CheckConst_visit G n v ())"

section \<open>\<open>CheckConstWithDefines\<close>\<close>

text \<open>The state is the field \<open>in_concat\<close>; its size is bounded by the depth of the tree.\<close>

fun concat_children_const ::
  "(vertex \<Rightarrow> (bool, int) run) \<Rightarrow> vertex list \<Rightarrow> (bool, int) run" where
  "concat_children_const self [] = (\<lambda>in_concat. ret True (in_concat - 1))"
| "concat_children_const self (i # rest) =
     seq (self i) (\<lambda>b.
       if \<not> b then (\<lambda>in_concat. ret False (in_concat - 1))
       else concat_children_const self rest)"

fun CheckConstWithDefines_on_non_const ::
  "(vertex \<Rightarrow> (bool, int) run) \<Rightarrow> vertex \<Rightarrow> (bool, int) run" where
  "CheckConstWithDefines_on_non_const self Null = abort NullDeref"
| "CheckConstWithDefines_on_non_const self (Other op str xs) =
     (if op = op_concat \<or> op = op_string_build
      then (\<lambda>in_concat. concat_children_const self xs (in_concat + 1))
      else ret False)"
| "CheckConstWithDefines_on_non_const self v = ret False"

definition CheckConstWithDefines ::
  "env \<Rightarrow> (vertex \<Rightarrow> (bool, int) run) \<Rightarrow> (bool, int) hooks" where
  "CheckConstWithDefines G self =
     (CheckConst G self (CheckConstWithDefines_on_non_const self))
     \<lparr> on_trivial := (\<lambda>op str in_concat.
          ret (in_concat = 0 \<or> get_string_opt (Trivial op str) \<noteq> None) in_concat),
       on_func_name := (\<lambda>n.
          case get_define G (resolve_define_name G n) of
            Some define \<Rightarrow> self (val define)
          | None \<Rightarrow> ret False) \<rparr>"

fun CheckConstWithDefines_visit :: "env \<Rightarrow> nat \<Rightarrow> vertex \<Rightarrow> (bool, int) run" where
  "CheckConstWithDefines_visit G 0 v = (\<lambda>s. None)"
| "CheckConstWithDefines_visit G (Suc n) v =
     visit (CheckConstWithDefines G (CheckConstWithDefines_visit G n)) v"

text \<open>
  \<open>CheckConstWithDefines::is_const\<close> on an object whose counter is \<open>in_concat\<close>; a fresh
  object has \<open>in_concat = 0\<close>.
\<close>

definition is_const_with_defines :: "env \<Rightarrow> nat \<Rightarrow> vertex \<Rightarrow> (bool, int) run" where
  "is_const_with_defines G n v = CheckConstWithDefines_visit G n v"

section \<open>\<open>MakeConst\<close>\<close>

text \<open>
  The state is the diagnostic channel.  The loop of \<open>on_non_const\<close> over the children of
  a concatenation, with \<open>acc\<close> the \<open>str_val\<close> of \<open>new_val\<close> so far.
\<close>

fun MakeConst_concat ::
  "env \<Rightarrow> (vertex \<Rightarrow> (vertex, string list) run) \<Rightarrow> vertex list \<Rightarrow> string
   \<Rightarrow> (vertex, string list) run" where
  "MakeConst_concat G self [] acc = ret (Trivial op_string (Some acc))"
| "MakeConst_concat G self (i # rest) acc =
     seq (self i) (\<lambda>res.
     seq (has_get_string res) (\<lambda>has.
     seq (vtype res) (\<lambda>t.
     seq (kphp_error has (''expected type convertible to string, but got: '' @ op_str G t)) (\<lambda>_.
     seq (get_string res) (\<lambda>str.
       MakeConst_concat G self rest (acc @ str))))))"

fun MakeConst_on_non_const ::
  "env \<Rightarrow> (vertex \<Rightarrow> (vertex, string list) run) \<Rightarrow> vertex \<Rightarrow> (vertex, string list) run" where
  "MakeConst_on_non_const G self Null = abort NullDeref"
| "MakeConst_on_non_const G self (Other op str xs) =
     (if op = op_concat \<or> op = op_string_build then MakeConst_concat G self xs []
      else ret Null)"
| "MakeConst_on_non_const G self v = ret Null"

definition MakeConst ::
  "env \<Rightarrow> (vertex \<Rightarrow> (vertex, string list) run) \<Rightarrow> (vertex, string list) hooks" where
  "MakeConst G self =
     (ConstManipulations (MakeConst_on_non_const G self))
     \<lparr> on_trivial := (\<lambda>op str. ret (Trivial op str)),
       on_unary := (\<lambda>op e. seq (self e) (\<lambda>e'. ret (Unary op e'))),
       on_binary := (\<lambda>op l r.
          seq (self l) (\<lambda>l'.
          seq (self r) (\<lambda>r'. ret (Binary op l' r')))),
       on_array_value := (\<lambda>args ind. seq (self (args ! ind)) (\<lambda>e'. ret (True, e'))),
       on_array_double_arrow := (\<lambda>k v.
          seq (self k) (\<lambda>k'.
          seq (self v) (\<lambda>v'. ret (True, DoubleArrow k' v')))),
       on_array_finish := (\<lambda>args. ret (Array args)),
       on_conv := (\<lambda>op e. self e),
       on_func_name := (\<lambda>n.
          case get_define G (resolve_define_name G n) of
            None \<Rightarrow> abort NullDeref
          | Some define \<Rightarrow> ret (val define)) \<rparr>"

fun MakeConst_visit :: "env \<Rightarrow> nat \<Rightarrow> vertex \<Rightarrow> (vertex, string list) run" where
  "MakeConst_visit G 0 v = (\<lambda>s. None)"
| "MakeConst_visit G (Suc n) v = visit (MakeConst G (MakeConst_visit G n)) v"

definition make_const :: "env \<Rightarrow> nat \<Rightarrow> vertex \<Rightarrow> (vertex, string list) run" where
  "make_const G n v = MakeConst_visit G n v"

section \<open>\<open>ArrayHash\<close>\<close>

text \<open>The state is \<open>cur_hash\<close>, a \<open>long long\<close>: a 64-bit word, arithmetic wraps.\<close>

definition HASH_MULT :: "64 word" where
  "HASH_MULT = 56235515617499"

definition MAGIC1 :: "64 word" where
  "MAGIC1 = 536536536536960"

definition MAGIC2 :: "64 word" where
  "MAGIC2 = 288288288288069"

definition feed_hash :: "64 word \<Rightarrow> (unit, 64 word) run" where
  "feed_hash v = (\<lambda>cur_hash. Some (Inr (), cur_hash * HASH_MULT + v))"

definition feed_hash_string :: "env \<Rightarrow> string \<Rightarrow> (unit, 64 word) run" where
  "feed_hash_string G str = feed_hash (string_hash G str)"

fun ArrayHash_elements ::
  "env \<Rightarrow> (vertex \<Rightarrow> (unit, 64 word) run) \<Rightarrow> vertex list \<Rightarrow> (unit, 64 word) run" where
  "ArrayHash_elements G self [] = ret ()"
| "ArrayHash_elements G self (it # rest) =
     seq (get_actual_value G it) (\<lambda>a.
     seq (self a) (\<lambda>_. ArrayHash_elements G self rest))"

definition ArrayHash_on_non_const :: "env \<Rightarrow> vertex \<Rightarrow> (unit, 64 word) run" where
  "ArrayHash_on_non_const G v =
     seq (vtype v) (\<lambda>t.
       kphp_assert_msg_false (''unsupported type for hashing: '' @ op_str G t))"

definition ArrayHash ::
  "env \<Rightarrow> (vertex \<Rightarrow> (unit, 64 word) run) \<Rightarrow> (unit, 64 word) hooks" where
  "ArrayHash G self =
     (ConstManipulations (ArrayHash_on_non_const G))
     \<lparr> on_trivial := (\<lambda>op str.
          feed_hash_string G
            (op_str G (TrivialOp op) @ (case str of Some t \<Rightarrow> t | None \<Rightarrow> []))),
       on_conv := (\<lambda>op e. self e),
       on_unary := (\<lambda>op e.
          seq (feed_hash_string G (op_str G (UnaryOp op))) (\<lambda>_. self e)),
       on_define_val := (\<lambda>n. seq (get_actual_value G (DefineVal n)) self),
       on_binary := (\<lambda>op l r.
          seq (self l) (\<lambda>_.
          seq (feed_hash_string G (op_str G (BinaryOp op))) (\<lambda>_. self r))),
       on_double_arrow := (\<lambda>k v.
          seq (get_actual_value G k) (\<lambda>key.
          seq (get_actual_value G v) (\<lambda>value.
          seq (self key) (\<lambda>_.
          seq (feed_hash_string G ''=>'') (\<lambda>_. self value))))),
       on_array_override := Some (\<lambda>args.
          seq (feed_hash (of_nat (length args))) (\<lambda>_.
          seq (feed_hash MAGIC1) (\<lambda>_.
          seq (ArrayHash_elements G self args) (\<lambda>_. feed_hash MAGIC2)))),
       on_var := (\<lambda>n ex vid. seq (get_actual_value G (Var n ex vid)) self) \<rparr>"

fun ArrayHash_visit :: "env \<Rightarrow> nat \<Rightarrow> vertex \<Rightarrow> (unit, 64 word) run" where
  "ArrayHash_visit G 0 v = (\<lambda>s. None)"
| "ArrayHash_visit G (Suc n) v = visit (ArrayHash G (ArrayHash_visit G n)) v"

text \<open>\<open>calc_hash\<close>: a fresh object (\<open>cur_hash = 0\<close>), the result is its \<open>cur_hash\<close>.\<close>

definition calc_hash :: "env \<Rightarrow> nat \<Rightarrow> vertex \<Rightarrow> (crash + 64 word) option" where
  "calc_hash G n v =
     (case seq (get_actual_value G v) (ArrayHash_visit G n) 0 of
        None \<Rightarrow> None
      | Some (Inl c, cur_hash) \<Rightarrow> Some (Inl c)
      | Some (Inr u, cur_hash) \<Rightarrow> Some (Inr cur_hash))"

section \<open>\<open>VertexPtrFormatter\<close>\<close>

fun VertexPtrFormatter_elements ::
  "env \<Rightarrow> (vertex \<Rightarrow> (string, unit) run) \<Rightarrow> vertex list \<Rightarrow> string \<Rightarrow> (string, unit) run" where
  "VertexPtrFormatter_elements G self [] res = ret res"
| "VertexPtrFormatter_elements G self (it # rest) res =
     seq (get_actual_value G it) (\<lambda>a.
     seq (self a) (\<lambda>x. VertexPtrFormatter_elements G self rest (res @ x @ '', '')))"

definition VertexPtrFormatter_on_non_const :: "env \<Rightarrow> vertex \<Rightarrow> (string, unit) run" where
  "VertexPtrFormatter_on_non_const G v =
     seq (has_get_string v) (\<lambda>has.
     seq (vtype v) (\<lambda>t.
       if has then seq (get_string v) (\<lambda>str. ret (str @ op_str G t))
       else kphp_assert_msg_false (''unsupported type for hashing: '' @ op_str G t)))"

definition VertexPtrFormatter ::
  "env \<Rightarrow> (vertex \<Rightarrow> (string, unit) run) \<Rightarrow> (string, unit) hooks" where
  "VertexPtrFormatter G self =
     (ConstManipulations (VertexPtrFormatter_on_non_const G))
     \<lparr> on_trivial := (\<lambda>op str.
          ret ((case str of Some t \<Rightarrow> t @ '':'' | None \<Rightarrow> []) @ op_str G (TrivialOp op))),
       on_conv := (\<lambda>op e. self e),
       on_unary := (\<lambda>op e. seq (self e) (\<lambda>x. ret (x @ '':'' @ op_str G (UnaryOp op)))),
       on_define_val := (\<lambda>n. seq (get_actual_value G (DefineVal n)) self),
       on_binary := (\<lambda>op l r.
          seq (self l) (\<lambda>x.
          seq (self r) (\<lambda>y. ret (''('' @ x @ op_str G (BinaryOp op) @ y @ '')'')))),
       on_double_arrow := (\<lambda>k v.
          seq (get_actual_value G k) (\<lambda>key.
          seq (get_actual_value G v) (\<lambda>value.
          seq (self key) (\<lambda>x.
          seq (self value) (\<lambda>y. ret (x @ ''=>'' @ y)))))),
       on_array_override := Some (\<lambda>args. VertexPtrFormatter_elements G self args []),
       on_var := (\<lambda>n ex vid. ret (n @ op_str G op_var)),
       on_instance_prop := (\<lambda>i p. seq (self i) (\<lambda>x. ret (x @ ''->'' @ p))) \<rparr>"

fun VertexPtrFormatter_visit :: "env \<Rightarrow> nat \<Rightarrow> vertex \<Rightarrow> (string, unit) run" where
  "VertexPtrFormatter_visit G 0 v = (\<lambda>s. None)"
| "VertexPtrFormatter_visit G (Suc n) v =
     visit (VertexPtrFormatter G (VertexPtrFormatter_visit G n)) v"

definition to_string :: "env \<Rightarrow> nat \<Rightarrow> vertex \<Rightarrow> (crash + string) option" where
  "to_string G n v =
     map_option fst (seq (get_actual_value G v) (VertexPtrFormatter_visit G n) ())"

section \<open>Auxiliary definitions for the statements\<close>

text \<open>A computation that, whenever it returns, leaves the visitor state as it found it.\<close>

definition preserves :: "('a, 's) run \<Rightarrow> bool" where
  "preserves m \<longleftrightarrow> (\<forall>s x s'. m s = Some (Inr x, s') \<longrightarrow> s' = s)"

text \<open>
  A small concrete environment for the examples: names are their own canonical form, one
  define \<open>X\<close> whose stored value is \<open>(int) "5"\<close>, references denote themselves.
\<close>

fun example_op_str :: "Operation \<Rightarrow> string" where
  "example_op_str (BinaryOp op_add) = ''+''"
| "example_op_str (TrivialOp op_int_const) = ''int_const''"
| "example_op_str (TrivialOp op_string) = ''string''"
| "example_op_str op_array = ''array''"
| "example_op_str t = ''op''"

definition example_define :: DefineData where
  "example_define = \<lparr> val = Conv op_conv_int (Trivial op_string (Some ''5'')) \<rparr>"

definition example_env :: env where
  "example_env =
     \<lparr> resolve_define_name = (\<lambda>n. n),
       get_define = (\<lambda>n. if n = ''X'' then Some example_define else None),
       actual_of = (\<lambda>v. v),
       op_str = example_op_str,
       string_hash = (\<lambda>str. of_nat (length str)) \<rparr>"

definition example_const_var :: vertex where
  "example_const_var =
     Var ''x'' op_ex_var_const (Some (VarData True (Trivial op_int_const (Some ''5''))))"

text \<open>Two computations, the second at least as defined as the first.\<close>

definition le_run :: "('a, 's) run \<Rightarrow> ('a, 's) run \<Rightarrow> bool" where
  "le_run m m' \<longleftrightarrow> (\<forall>s x. m s = Some x \<longrightarrow> m' s = Some x)"

text \<open>
  A visitor that only records which hooks the array orchestration calls, in which order:
  its state is the list of the calls so far, its two probes answer what \<open>accept\<close> says
  about the element.
\<close>

datatype event =
  ProbeDoubleArrow vertex vertex | ProbeValue nat | Finish "vertex list" | NonConst vertex

definition log :: "event \<Rightarrow> (unit, event list) run" where
  "log e = (\<lambda>trace. Some (Inr (), trace @ [e]))"

definition tracing_hooks :: "(vertex \<Rightarrow> bool) \<Rightarrow> (unit, event list) hooks" where
  "tracing_hooks accept =
     (ConstManipulations (\<lambda>v. log (NonConst v)))
     \<lparr> on_array_double_arrow := (\<lambda>k v.
          seq (log (ProbeDoubleArrow k v)) (\<lambda>_.
            ret (accept (DoubleArrow k v), DoubleArrow k v))),
       on_array_value := (\<lambda>args ind.
          seq (log (ProbeValue ind)) (\<lambda>_. ret (accept (args ! ind), args ! ind))),
       on_array_finish := (\<lambda>args. log (Finish args)) \<rparr>"

text \<open>
  What the spec says the orchestration does: the elements are probed in order, key-value
  pairs by \<open>on_array_double_arrow\<close> and the others by \<open>on_array_value\<close>, up to and
  including the first one that is rejected; then \<open>on_non_const\<close> gets the whole array
  if one was rejected, and \<open>on_array_finish\<close> is called if none was.
\<close>

fun probe_event :: "nat \<times> vertex \<Rightarrow> event" where
  "probe_event (i, DoubleArrow k v) = ProbeDoubleArrow k v"
| "probe_event (i, cur) = ProbeValue i"

definition expected_trace :: "(vertex \<Rightarrow> bool) \<Rightarrow> vertex list \<Rightarrow> event list" where
  "expected_trace accept args =
     (let accepted = length (takeWhile accept args) in
      if accepted = length args
      then map probe_event (enumerate 0 args) @ [Finish args]
      else map probe_event (enumerate 0 (take (Suc accepted) args)) @ [NonConst (Array args)])"

definition example_array :: "vertex list" where
  "example_array =
     [Trivial op_int_const (Some ''1''),
      DoubleArrow (Trivial op_string (Some ''x'')) (Trivial op_true None),
      Trivial op_null None,
      Trivial op_int_const (Some ''4'')]"

fun no_null_literal :: "vertex \<Rightarrow> bool" where
  "no_null_literal (Trivial op_null str) = False"
| "no_null_literal v = True"

definition abc_concat :: vertex where
  "abc_concat =
     Other op_concat None
       [Trivial op_string (Some ''a''), Trivial op_string (Some ''b''),
        Trivial op_string (Some ''c'')]"

definition early_concat :: vertex where
  "early_concat =
     Other op_concat None
       [Trivial op_string (Some ''a''), Trivial op_true None, Trivial op_string (Some ''c'')]"

text \<open>Two constant arrays that feed the hasher the same number of values.\<close>

definition nested_a :: vertex where
  "nested_a = Array [Array [Array []]]"

definition nested_b :: vertex where
  "nested_b = Array [Array [], Array []]"

text \<open>
  A node without variable references and define-value references: the nodes of which
  \<open>get_actual_value\<close> returns the node itself, all the way down.
\<close>

fun ref_free :: "vertex \<Rightarrow> bool" where
  "ref_free Null = True"
| "ref_free (Trivial op str) = True"
| "ref_free (Conv op e) = ref_free e"
| "ref_free (Unary op e) = ref_free e"
| "ref_free (Binary op l r) = (ref_free l \<and> ref_free r)"
| "ref_free (Array xs) = (\<forall>x \<in> set xs. ref_free x)"
| "ref_free (DoubleArrow k v) = (ref_free k \<and> ref_free v)"
| "ref_free (Var n ex vid) = False"
| "ref_free (InstanceProp i p) = ref_free i"
| "ref_free (FuncName n) = True"
| "ref_free (DefineVal n) = False"
| "ref_free (Other op str xs) = (\<forall>x \<in> set xs. ref_free x)"

text \<open>
  What the two array probes of \<open>CheckConst\<close> (at depth \<open>n\<close>) and of \<open>MakeConst\<close> do with
  an element whose parts denote themselves: the element is accepted; the element is
  rewritten to \<open>cur'\<close> and the channel stays as it is.
\<close>

fun accepts_element :: "env \<Rightarrow> nat \<Rightarrow> vertex \<Rightarrow> bool" where
  "accepts_element G n (DoubleArrow k v) =
     (CheckConst_visit G n k () = Some (Inr True, ())
      \<and> CheckConst_visit G n v () = Some (Inr True, ()))"
| "accepts_element G n cur = (CheckConst_visit G n cur () = Some (Inr True, ()))"

fun element_folds :: "env \<Rightarrow> nat \<Rightarrow> string list \<Rightarrow> vertex \<Rightarrow> vertex \<Rightarrow> bool" where
  "element_folds G n diag Null cur' = False"
| "element_folds G n diag (DoubleArrow k v) (DoubleArrow k' v') =
     (MakeConst_visit G n k diag = Some (Inr k', diag)
      \<and> MakeConst_visit G n v diag = Some (Inr v', diag))"
| "element_folds G n diag (DoubleArrow k v) cur' = False"
| "element_folds G n diag cur cur' = (MakeConst_visit G n cur diag = Some (Inr cur', diag))"

definition one_two :: "vertex list" where
  "one_two = [Trivial op_int_const (Some ''1''), Trivial op_int_const (Some ''2'')]"

definition example_constant_array :: vertex where
  "example_constant_array =
     Array
       [Conv op_conv_int (Trivial op_string (Some ''1'')),
        DoubleArrow (Trivial op_string (Some ''x''))
          (Binary op_add (Trivial op_int_const (Some ''2''))
             (Unary op_minus (Conv op_conv_float (Trivial op_int_const (Some ''3'')))))]"

definition example_folded_array :: vertex where
  "example_folded_array =
     Array
       [Trivial op_string (Some ''1''),
        DoubleArrow (Trivial op_string (Some ''x''))
          (Binary op_add (Trivial op_int_const (Some ''2''))
             (Unary op_minus (Trivial op_int_const (Some ''3''))))]"

section \<open>Basic facts about computations\<close>

lemma ret_apply: "ret x s = Some (Inr x, s)"
  by (simp add: ret_def)

lemma abort_apply: "abort c s = Some (Inl c, s)"
  by (simp add: abort_def)

lemma seq_ret [simp]: "seq (ret x) f = f x"
  by (simp add: seq_def ret_def)

lemma seq_abort [simp]: "seq (abort c) f = abort c"
  by (simp add: seq_def abort_def)

lemma seq_returns:
  "seq m f s = Some (Inr y, s') \<longleftrightarrow>
     (\<exists>x s1. m s = Some (Inr x, s1) \<and> f x s1 = Some (Inr y, s'))"
  by (auto simp: seq_def split: option.splits sum.splits prod.splits)

lemma preserves_ret [simp]: "preserves (ret x)"
  by (simp add: preserves_def ret_def)

lemma preserves_abort [simp]: "preserves (abort c)"
  by (simp add: preserves_def abort_def)

lemma preserves_stuck [simp]: "preserves (\<lambda>s. None)"
  by (simp add: preserves_def)

lemma preserves_seq: "preserves m \<Longrightarrow> (\<And>x. preserves (f x)) \<Longrightarrow> preserves (seq m f)"
  unfolding preserves_def seq_returns by blast

lemma preserves_get_actual_value [simp]: "preserves (get_actual_value G v)"
  by (cases v) simp_all

text \<open>Recursion budgets written as numerals.\<close>

lemma fuel2: "(2::nat) = Suc (Suc 0)"
  by simp

lemma fuel4: "(4::nat) = Suc (Suc (Suc (Suc 0)))"
  by simp

lemma fuel5: "(5::nat) = Suc (Suc (Suc (Suc (Suc 0))))"
  by simp

section \<open>The variable rule of \<open>CheckConst\<close>\<close>

text \<open>
  Claim C5.  For a variable reference, \<open>is_const\<close> answers \<open>false\<close> unless the reference
  has a binding that is marked constant (the reference carries \<open>op_ex_var_const\<close>, or the
  variable entity reports \<open>is_constant()\<close>); when it has one, the answer is the answer of
  the recursive visit of the binding's \<open>init_val\<close>.
\<close>

theorem is_const_var:
  "is_const G (Suc n) (Var name ex vid) =
     (case vid of
        None \<Rightarrow> Some (Inr False)
      | Some var \<Rightarrow>
          if ex = op_ex_var_const \<or> is_constant var then is_const G n (init_val var)
          else Some (Inr False))"
  by (simp add: is_const_def CheckConst_def ret_apply split: option.split)

theorem is_const_var_witness:
  "is_const example_env 2 example_const_var = Some (Inr True)
   \<and> is_const example_env 2 (Var ''y'' op_ex_var_const None) = Some (Inr False)
   \<and> is_const example_env 2 (Var ''z'' op_ex_none (Some (VarData False (Trivial op_null None))))
       = Some (Inr False)"
  using is_const_var [of example_env 1 "''x''" op_ex_var_const
      "Some (VarData True (Trivial op_int_const (Some ''5'')))"]
    is_const_var [of example_env 1 "''y''" op_ex_var_const None]
    is_const_var [of example_env 1 "''z''" op_ex_none
      "Some (VarData False (Trivial op_null None))"]
  by (simp add: example_const_var_def numeral_2_eq_2 is_const_def CheckConst_def ret_apply)

section \<open>The nesting counter of \<open>CheckConstWithDefines\<close>\<close>

lemma preserves_on_array_loop:
  assumes "\<And>k v. preserves (on_array_double_arrow h k v)"
    and "\<And>args ind. preserves (on_array_value h args ind)"
    and "\<And>args. preserves (on_array_finish h args)"
    and "\<And>v. preserves (on_non_const h v)"
  shows "preserves (on_array_loop h pre rest)"
proof (induction rest arbitrary: pre)
  case Nil
  show ?case by (simp add: assms)
next
  case (Cons cur rest)
  have probe: "preserves (case cur of
            Null \<Rightarrow> abort NullDeref
          | DoubleArrow k v \<Rightarrow> on_array_double_arrow h k v
          | _ \<Rightarrow> on_array_value h (pre @ cur # rest) (length pre))"
    by (cases cur) (simp_all add: assms)
  show ?case
    unfolding on_array_loop.simps
    by (rule preserves_seq [OF probe]) (auto simp: assms Cons.IH)
qed

lemma concat_children_const_counter:
  assumes "\<forall>v. preserves (self v)"
  shows "concat_children_const self xs s = Some (Inr b, s') \<Longrightarrow> s' = s - 1"
proof (induction xs arbitrary: s)
  case Nil
  then show ?case by (simp add: ret_def)
next
  case (Cons i rest)
  from Cons.prems obtain x s1 where i: "self i s = Some (Inr x, s1)"
    and k: "(if \<not> x then (\<lambda>in_concat. ret False (in_concat - 1))
       else concat_children_const self rest) s1 = Some (Inr b, s')"
    unfolding concat_children_const.simps seq_returns by blast
  from assms i have "s1 = s" unfolding preserves_def by blast
  with k Cons.IH show ?case by (cases x) (auto simp: ret_def)
qed

lemma preserves_CheckConstWithDefines_on_non_const:
  assumes "\<forall>v. preserves (self v)"
  shows "preserves (CheckConstWithDefines_on_non_const self v)"
proof (cases v)
  case (Other op str xs)
  have "s' = s" if "concat_children_const self xs (s + 1) = Some (Inr b, s')" for s s' b
    using concat_children_const_counter [OF assms that] by simp
  then show ?thesis
    unfolding Other preserves_def by (auto simp: ret_def)
qed simp_all

lemma preserves_CheckConstWithDefines_visit:
  "preserves (CheckConstWithDefines_visit G n v)"
proof (induction n arbitrary: v)
  case 0
  show ?case by simp
next
  case (Suc n)
  let ?self = "CheckConstWithDefines_visit G n"
  let ?h = "CheckConstWithDefines G ?self"
  have nc: "\<And>v. preserves (CheckConstWithDefines_on_non_const ?self v)"
    by (rule preserves_CheckConstWithDefines_on_non_const) (simp add: Suc.IH)
  have triv: "\<And>op str. preserves (on_trivial ?h op str)"
    by (simp add: CheckConstWithDefines_def preserves_def ret_def)
  have arr: "\<And>args. preserves (on_array ?h args)"
    unfolding on_array_def
    by (rule preserves_on_array_loop)
       (auto simp: CheckConstWithDefines_def CheckConst_def ConstManipulations_def
          Suc.IH nc intro!: preserves_seq)
  show ?case
  proof (cases v)
    case (Array args)
    have "on_array_override ?h = None"
      by (simp add: CheckConstWithDefines_def CheckConst_def ConstManipulations_def)
    then show ?thesis using arr by (simp add: Array)
  next
    case (Trivial op str)
    then show ?thesis using triv by simp
  next
    case (Other op str xs)
    have "visit ?h v = CheckConstWithDefines_on_non_const ?self v"
      by (simp add: Other CheckConstWithDefines_def CheckConst_def ConstManipulations_def
            del: CheckConstWithDefines_on_non_const.simps)
    then show ?thesis by (simp only: CheckConstWithDefines_visit.simps nc)
  qed (auto simp: CheckConstWithDefines_def CheckConst_def ConstManipulations_def
          Suc.IH nc intro!: preserves_seq split: option.split)
qed

text \<open>
  Claim C4.  Whenever \<open>CheckConstWithDefines::is_const\<close> returns, with either answer,
  \<open>in_concat\<close> has the value it had before the call: the concatenation handler
  decrements it on the path that returns \<open>true\<close> and on the early return of \<open>false\<close>.
  On a fresh object the counter is therefore zero again after the call.
\<close>

theorem in_concat_restored:
  "is_const_with_defines G n v in_concat = Some (Inr b, in_concat') \<Longrightarrow>
     in_concat' = in_concat"
  using preserves_CheckConstWithDefines_visit [of G n v]
  unfolding preserves_def is_const_with_defines_def by blast

theorem in_concat_restored_witness:
  "is_const_with_defines example_env 2 abc_concat 0 = Some (Inr True, 0)
   \<and> is_const_with_defines example_env 2 early_concat 0 = Some (Inr False, 0)"
proof -
  have 1: "is_const_with_defines example_env 2 abc_concat 0 = Some (Inr True, 0 + 1 - 1)"
    unfolding fuel2
    by (simp add: abc_concat_def is_const_with_defines_def CheckConstWithDefines_def
          CheckConst_def ConstManipulations_def ret_apply seq_def)
  have 2: "is_const_with_defines example_env 2 early_concat 0 = Some (Inr False, 0 + 1 - 1)"
    unfolding fuel2
    by (simp add: early_concat_def is_const_with_defines_def CheckConstWithDefines_def
          CheckConst_def ConstManipulations_def ret_apply seq_def)
  from in_concat_restored [OF 1] in_concat_restored [OF 2] 1 2 show ?thesis
    by simp
qed

text \<open>
  Claim C10.  A concatenation or string-build node without children is constant for
  \<open>CheckConstWithDefines\<close>, whatever its counter was; the counter is unchanged.
\<close>

theorem empty_concat_is_const:
  "is_const_with_defines G (Suc n) (Other op_concat str []) in_concat = Some (Inr True, in_concat)
   \<and> is_const_with_defines G (Suc n) (Other op_string_build str []) in_concat
       = Some (Inr True, in_concat)"
  by (simp add: is_const_with_defines_def CheckConstWithDefines_def CheckConst_def
        ConstManipulations_def ret_apply)

theorem empty_concat_is_const_witness:
  "is_const_with_defines example_env 1 (Other op_concat None []) 0 = Some (Inr True, 0)
   \<and> is_const_with_defines example_env 1 (Other op_string_build None []) 0 = Some (Inr True, 0)"
  using empty_concat_is_const [of example_env 0 None 0] by simp

section \<open>Folding a function-name reference\<close>

text \<open>
  Claim C2, as stated: the fold of a function-name reference whose name is registered
  equals the fold of the define's stored value.  It fails for the define \<open>X\<close> of the
  example environment, whose stored value \<open>(int) "5"\<close> is not in folded form: the
  reference folds to the stored value as it is, the stored value folds to \<open>"5"\<close>.
\<close>

theorem func_name_fold_is_not_refolded:
  "get_define example_env (resolve_define_name example_env ''X'') = Some example_define
   \<and> make_const example_env 2 (FuncName ''X'') []
       = Some (Inr (Conv op_conv_int (Trivial op_string (Some ''5''))), [])
   \<and> make_const example_env 2 (val example_define) []
       = Some (Inr (Trivial op_string (Some ''5'')), [])
   \<and> make_const example_env 2 (FuncName ''X'') []
       \<noteq> make_const example_env 2 (val example_define) []"
  unfolding fuel2
  by (simp add: make_const_def MakeConst_def ConstManipulations_def example_env_def
        example_define_def ret_apply)

text \<open>
  Claim C2, amended: the fold of a function-name reference whose canonicalized name is
  registered is the define's stored value expression itself, as stored; the diagnostic
  channel is untouched.
\<close>

theorem make_const_func_name:
  "get_define G (resolve_define_name G name) = Some define \<Longrightarrow>
     make_const G (Suc n) (FuncName name) diag = Some (Inr (val define), diag)"
  by (simp add: make_const_def MakeConst_def ret_apply)

theorem make_const_func_name_witness:
  "get_define example_env (resolve_define_name example_env ''X'') = Some example_define
   \<and> make_const example_env 1 (FuncName ''X'') [] = Some (Inr (val example_define), [])"
proof -
  have 1: "get_define example_env (resolve_define_name example_env ''X'') = Some example_define"
    by (simp add: example_env_def)
  from make_const_func_name [OF 1, of 0 "[]"] 1 show ?thesis
    by simp
qed

section \<open>Folding what \<open>CheckConst\<close> accepts\<close>

text \<open>
  Claim C1, as stated: whenever \<open>is_const\<close> holds of a node, \<open>make_const\<close> returns a node
  of which \<open>is_const\<close> holds again.  It fails for a reference to a constant variable:
  \<open>CheckConst\<close> accepts it through \<open>on_var\<close>, \<open>MakeConst\<close> has no \<open>on_var\<close> and returns the
  empty pointer from \<open>on_non_const\<close>, and \<open>is_const\<close> of the empty pointer crashes.
\<close>

theorem fold_of_constant_variable_is_null:
  "is_const example_env 2 example_const_var = Some (Inr True)
   \<and> make_const example_env 2 example_const_var [] = Some (Inr Null, [])
   \<and> is_const example_env 2 Null = Some (Inl NullDeref)"
  unfolding fuel2
  by (simp add: is_const_def make_const_def example_const_var_def CheckConst_def MakeConst_def
        ConstManipulations_def ret_apply abort_apply)

lemma le_run_refl [simp]: "le_run m m"
  by (simp add: le_run_def)

lemma le_run_stuck [simp]: "le_run (\<lambda>s. None) m"
  by (simp add: le_run_def)

lemma le_run_seq:
  assumes "le_run m m'" and "\<And>x. le_run (f x) (f' x)"
  shows "le_run (seq m f) (seq m' f')"
  unfolding le_run_def
proof (intro allI impI)
  fix s x
  assume a: "seq m f s = Some x"
  then obtain y where y: "m s = Some y"
    by (cases "m s") (simp_all add: seq_def)
  with assms(1) have y': "m' s = Some y"
    unfolding le_run_def by blast
  show "seq m' f' s = Some x"
  proof (cases y)
    case (Pair o1 s1)
    show ?thesis
    proof (cases o1)
      case (Inl c)
      with a y y' Pair show ?thesis by (simp add: seq_def)
    next
      case (Inr z)
      with a y Pair have "f z s1 = Some x" by (simp add: seq_def)
      with assms(2) have "f' z s1 = Some x" unfolding le_run_def by blast
      with y' Pair Inr show ?thesis by (simp add: seq_def)
    qed
  qed
qed

lemma le_run_on_array_loop:
  assumes "\<And>k v. le_run (on_array_double_arrow h k v) (on_array_double_arrow h' k v)"
    and "\<And>args ind. le_run (on_array_value h args ind) (on_array_value h' args ind)"
    and "\<And>args. le_run (on_array_finish h args) (on_array_finish h' args)"
    and "\<And>v. le_run (on_non_const h v) (on_non_const h' v)"
  shows "le_run (on_array_loop h pre rest) (on_array_loop h' pre rest)"
proof (induction rest arbitrary: pre)
  case Nil
  show ?case by (simp add: assms)
next
  case (Cons cur rest)
  have probe: "le_run
     (case cur of Null \<Rightarrow> abort NullDeref
      | DoubleArrow k v \<Rightarrow> on_array_double_arrow h k v
      | _ \<Rightarrow> on_array_value h (pre @ cur # rest) (length pre))
     (case cur of Null \<Rightarrow> abort NullDeref
      | DoubleArrow k v \<Rightarrow> on_array_double_arrow h' k v
      | _ \<Rightarrow> on_array_value h' (pre @ cur # rest) (length pre))"
    by (cases cur) (simp_all add: assms)
  show ?case
    unfolding on_array_loop.simps
    by (rule le_run_seq [OF probe]) (auto simp: assms Cons.IH)
qed

lemma le_run_visit_CheckConst:
  assumes "\<And>v. le_run (self v) (self' v)"
  shows "le_run (visit (CheckConst G self nc) v) (visit (CheckConst G self' nc) v)"
proof -
  let ?h = "CheckConst G self nc"
  let ?h' = "CheckConst G self' nc"
  have arr: "le_run (on_array ?h args) (on_array ?h' args)" for args
    unfolding on_array_def
    by (rule le_run_on_array_loop)
       (auto simp: CheckConst_def ConstManipulations_def assms intro!: le_run_seq)
  show ?thesis
  proof (cases v)
    case (Array args)
    have "on_array_override ?h = None" "on_array_override ?h' = None"
      by (simp_all add: CheckConst_def ConstManipulations_def)
    then show ?thesis using arr by (simp add: Array)
  qed (auto simp: CheckConst_def ConstManipulations_def assms intro!: le_run_seq
         split: option.split)
qed

lemma le_run_CheckConst_visit:
  "le_run (CheckConst_visit G n v) (CheckConst_visit G (Suc n) v)"
proof (induction n arbitrary: v)
  case 0
  show ?case by simp
next
  case (Suc n)
  have "le_run (visit (CheckConst G (CheckConst_visit G n) (\<lambda>v. ret False)) v)
          (visit (CheckConst G (CheckConst_visit G (Suc n)) (\<lambda>v. ret False)) v)"
    by (rule le_run_visit_CheckConst) (rule Suc.IH)
  then show ?case by (simp only: CheckConst_visit.simps(2))
qed

lemma CheckConst_visit_mono:
  "CheckConst_visit G n v s = Some x \<Longrightarrow> CheckConst_visit G (Suc n) v s = Some x"
  using le_run_CheckConst_visit [of G n v] unfolding le_run_def by blast


lemma get_actual_value_ref_free:
  "ref_free v \<Longrightarrow> v \<noteq> Null \<Longrightarrow> get_actual_value G v = ret v"
  by (cases v) simp_all

lemma CheckConst_visit_Null: "CheckConst_visit G n Null () \<noteq> Some (Inr True, ())"
  by (cases n) (simp_all add: abort_def)

lemma CheckConst_visit_DoubleArrow:
  "CheckConst_visit G n (DoubleArrow k v) () \<noteq> Some (Inr True, ())"
  by (cases n) (simp_all add: CheckConst_def ConstManipulations_def ret_def)

lemma seq_unit_True:
  "seq m f () = Some (Inr True, ()) \<longleftrightarrow> (\<exists>x. m () = Some (Inr x, ()) \<and> f x () = Some (Inr True, ()))"
  by (simp add: seq_returns)

lemma CheckConst_on_array_loop:
  assumes "\<forall>x \<in> set rest. ref_free x"
  shows "on_array_loop (CheckConst G (CheckConst_visit G n) (\<lambda>v. ret False)) pre rest ()
           = Some (Inr True, ())
         \<longleftrightarrow> (\<forall>cur \<in> set rest. accepts_element G n cur)"
  using assms
proof (induction rest arbitrary: pre)
  case Nil
  show ?case by (simp add: CheckConst_def ret_def)
next
  case (Cons cur rest)
  let ?h = "CheckConst G (CheckConst_visit G n) (\<lambda>v. ret False)"
  from Cons.prems have rf: "ref_free cur" and rest: "\<forall>x \<in> set rest. ref_free x"
    by simp_all
  note IH = Cons.IH [OF rest]
  have nc: "on_non_const ?h v () \<noteq> Some (Inr True, ())" for v
    by (simp add: CheckConst_def ConstManipulations_def ret_def)
  show ?case
  proof (cases "\<exists>k v. cur = DoubleArrow k v")
    case True
    then obtain k v where cur: "cur = DoubleArrow k v" by blast
    show ?thesis
    proof (cases "k = Null \<or> v = Null")
      case True
      then show ?thesis
        using CheckConst_visit_Null [of G n]
        by (cases k; cases v)
           (auto simp: cur CheckConst_def ConstManipulations_def seq_def abort_def ret_def)
    next
      case False
      with rf cur have kv: "k \<noteq> Null" "v \<noteq> Null" "ref_free k" "ref_free v"
        by simp_all
      have probe: "on_array_double_arrow ?h k v =
          seq (CheckConst_visit G n k) (\<lambda>a.
            if a then seq (CheckConst_visit G n v) (\<lambda>b. ret (b, DoubleArrow k v))
            else ret (False, DoubleArrow k v))"
        by (simp add: CheckConst_def get_actual_value_ref_free kv)
      show ?thesis
        using IH [of "pre @ [cur]"] nc
        unfolding on_array_loop.simps cur vertex.case probe
        by (auto simp: cur seq_def ret_def split: option.splits sum.splits)
    qed
  next
    case False
    show ?thesis
    proof (cases "cur = Null")
      case True
      then show ?thesis
        using CheckConst_visit_Null [of G n] by (simp add: abort_apply)
    next
      case nn: False
      have probe: "(case cur of Null \<Rightarrow> abort NullDeref
          | DoubleArrow k v \<Rightarrow> on_array_double_arrow ?h k v
          | _ \<Rightarrow> on_array_value ?h (pre @ cur # rest) (length pre))
          = seq (CheckConst_visit G n cur) (\<lambda>b. ret (b, cur))"
        using False nn rf
        by (cases cur) (simp_all add: CheckConst_def get_actual_value_ref_free)
      have acc: "accepts_element G n cur = (CheckConst_visit G n cur () = Some (Inr True, ()))"
        using False by (cases cur) simp_all
      show ?thesis
        using IH [of "pre @ [cur]"] nc
        unfolding on_array_loop.simps probe
        by (auto simp: acc seq_def ret_def split: option.splits sum.splits)
    qed
  qed
qed


lemma MakeConst_on_array_loop:
  "list_all2 (element_folds G n diag) rest rest' \<Longrightarrow>
   on_array_loop (MakeConst G (MakeConst_visit G n)) pre rest diag
     = Some (Inr (Array (pre @ rest')), diag)"
proof (induction rest rest' arbitrary: pre rule: list_all2_induct)
  case Nil
  show ?case by (simp add: MakeConst_def ret_def)
next
  case (Cons cur rest cur' rest')
  let ?h = "MakeConst G (MakeConst_visit G n)"
  have probe: "(case cur of Null \<Rightarrow> abort NullDeref
          | DoubleArrow k v \<Rightarrow> on_array_double_arrow ?h k v
          | _ \<Rightarrow> on_array_value ?h (pre @ cur # rest) (length pre)) diag
        = Some (Inr (True, cur'), diag)"
    using Cons.hyps(1)
    by (cases cur; cases cur') (simp_all add: MakeConst_def seq_def ret_def)
  show ?case
    using Cons.IH [of "pre @ [cur']"] probe
    by (simp add: seq_def)
qed

lemma list_all2_choice:
  "\<forall>x \<in> set xs. \<exists>y. R x y \<Longrightarrow> \<exists>ys. list_all2 R xs ys"
proof (induction xs)
  case Nil
  show ?case by simp
next
  case (Cons x xs)
  then obtain y ys where "R x y" "list_all2 R xs ys" by auto
  then have "list_all2 R (x # xs) (y # ys)" by simp
  then show ?case by blast
qed

lemma fold_keeps_constancy:
  "CheckConst_visit G n v () = Some (Inr True, ()) \<Longrightarrow> ref_free v \<Longrightarrow>
   \<exists>r. MakeConst_visit G n v diag = Some (Inr r, diag)
       \<and> CheckConst_visit G n r () = Some (Inr True, ()) \<and> ref_free r"
proof (induction n arbitrary: v)
  case 0
  then show ?case by simp
next
  case (Suc n)
  note const = Suc.prems(1) and rf = Suc.prems(2)
  let ?cc = "CheckConst G (CheckConst_visit G n) (\<lambda>v. ret False)"
  let ?mk = "MakeConst G (MakeConst_visit G n)"
  have nn: "CheckConst_visit G n x () = Some (Inr True, ()) \<Longrightarrow> x \<noteq> Null" for x
    using CheckConst_visit_Null [of G n] by auto
  show ?case
  proof (cases v)
    case Null
    with const show ?thesis by (simp add: abort_apply)
  next
    case (Trivial op str)
    then show ?thesis
      by (simp add: CheckConst_def MakeConst_def ret_apply)
  next
    case (Conv op e)
    with const rf have "CheckConst_visit G n e () = Some (Inr True, ())" "ref_free e"
      by (simp_all add: CheckConst_def)
    from Suc.IH [OF this] obtain r where r: "MakeConst_visit G n e diag = Some (Inr r, diag)"
      "CheckConst_visit G n r () = Some (Inr True, ())" "ref_free r"
      by blast
    from r(2) have "CheckConst_visit G (Suc n) r () = Some (Inr True, ())"
      by (rule CheckConst_visit_mono)
    with r(1,3) show ?thesis
      by (simp add: Conv MakeConst_def del: CheckConst_visit.simps)
  next
    case (Unary op e)
    with const rf have "CheckConst_visit G n e () = Some (Inr True, ())" "ref_free e"
      by (simp_all add: CheckConst_def)
    from Suc.IH [OF this] obtain r where r: "MakeConst_visit G n e diag = Some (Inr r, diag)"
      "CheckConst_visit G n r () = Some (Inr True, ())" "ref_free r"
      by blast
    then show ?thesis
      by (simp add: Unary MakeConst_def CheckConst_def seq_def ret_apply)
  next
    case (Binary op l r)
    from rf have rfs: "ref_free l" "ref_free r"
      by (simp_all add: Binary)
    from const obtain lhs rhs
      where g: "get_actual_value G l () = Some (Inr lhs, ())"
        "get_actual_value G r () = Some (Inr rhs, ())"
        and c: "CheckConst_visit G n lhs () = Some (Inr True, ())"
        "CheckConst_visit G n rhs () = Some (Inr True, ())"
      by (auto simp: Binary CheckConst_def seq_returns ret_apply split: if_splits)
    from g have lr: "l \<noteq> Null" "r \<noteq> Null"
      by (auto simp: abort_apply)
    with g rfs have "lhs = l" "rhs = r"
      by (simp_all add: get_actual_value_ref_free ret_apply)
    with c have both: "CheckConst_visit G n l () = Some (Inr True, ())"
      "CheckConst_visit G n r () = Some (Inr True, ())"
      by simp_all
    from Suc.IH [OF both(1) rfs(1)] obtain l'
      where l': "MakeConst_visit G n l diag = Some (Inr l', diag)"
        "CheckConst_visit G n l' () = Some (Inr True, ())" "ref_free l'"
      by blast
    from Suc.IH [OF both(2) rfs(2)] obtain r'
      where r': "MakeConst_visit G n r diag = Some (Inr r', diag)"
        "CheckConst_visit G n r' () = Some (Inr True, ())" "ref_free r'"
      by blast
    from l'(2) r'(2) have "l' \<noteq> Null" "r' \<noteq> Null"
      by (auto dest: nn)
    with l' r' show ?thesis
      by (simp add: Binary MakeConst_def CheckConst_def get_actual_value_ref_free seq_def
            ret_apply)
  next
    case (Array xs)
    from rf have rfs: "\<forall>x \<in> set xs. ref_free x"
      by (simp add: Array)
    have ov: "on_array_override ?cc = None" "on_array_override ?mk = None"
      by (simp_all add: CheckConst_def MakeConst_def ConstManipulations_def)
    from const have "on_array_loop ?cc [] xs () = Some (Inr True, ())"
      by (simp add: Array ov on_array_def)
    then have acc: "\<forall>cur \<in> set xs. accepts_element G n cur"
      by (simp add: CheckConst_on_array_loop [OF rfs])
    have "\<exists>cur'. element_folds G n diag cur cur' \<and> accepts_element G n cur' \<and> ref_free cur'"
      if "cur \<in> set xs" for cur
    proof (cases "\<exists>k v. cur = DoubleArrow k v")
      case True
      then obtain k v where cur: "cur = DoubleArrow k v" by blast
      from acc rfs that have kv: "CheckConst_visit G n k () = Some (Inr True, ())" "ref_free k"
        "CheckConst_visit G n v () = Some (Inr True, ())" "ref_free v"
        by (auto simp: cur)
      from Suc.IH [OF kv(1,2)] obtain k'
        where k': "MakeConst_visit G n k diag = Some (Inr k', diag)"
          "CheckConst_visit G n k' () = Some (Inr True, ())" "ref_free k'"
        by blast
      from Suc.IH [OF kv(3,4)] obtain v'
        where v': "MakeConst_visit G n v diag = Some (Inr v', diag)"
          "CheckConst_visit G n v' () = Some (Inr True, ())" "ref_free v'"
        by blast
      from k' v' have "element_folds G n diag cur (DoubleArrow k' v')
          \<and> accepts_element G n (DoubleArrow k' v') \<and> ref_free (DoubleArrow k' v')"
        by (simp add: cur)
      then show ?thesis by blast
    next
      case False
      with acc that have c: "CheckConst_visit G n cur () = Some (Inr True, ())"
        by (cases cur) auto
      from rfs that have "ref_free cur" by blast
      from Suc.IH [OF c this] obtain cur'
        where cur': "MakeConst_visit G n cur diag = Some (Inr cur', diag)"
          "CheckConst_visit G n cur' () = Some (Inr True, ())" "ref_free cur'"
        by blast
      from c have "cur \<noteq> Null" by (rule nn)
      with False cur'(1) have 1: "element_folds G n diag cur cur'"
        by (cases cur) simp_all
      from cur'(2) have "\<not> (\<exists>k v. cur' = DoubleArrow k v)"
        using CheckConst_visit_DoubleArrow [of G n] by auto
      with cur'(2) have 2: "accepts_element G n cur'"
        by (cases cur') simp_all
      from 1 2 cur'(3) show ?thesis by blast
    qed
    then have "\<forall>cur \<in> set xs. \<exists>cur'.
        element_folds G n diag cur cur' \<and> accepts_element G n cur' \<and> ref_free cur'"
      by blast
    from list_all2_choice [OF this] obtain xs'
      where xs': "list_all2 (\<lambda>cur cur'. element_folds G n diag cur cur'
                    \<and> accepts_element G n cur' \<and> ref_free cur') xs xs'"
      by blast
    then have folds: "list_all2 (element_folds G n diag) xs xs'"
      by (rule list_all2_mono) blast
    from xs' have good: "\<forall>cur' \<in> set xs'. accepts_element G n cur'"
      "\<forall>cur' \<in> set xs'. ref_free cur'"
      by (auto simp: list_all2_conv_all_nth in_set_conv_nth)
    from MakeConst_on_array_loop [OF folds, of "[]"]
    have 1: "MakeConst_visit G (Suc n) v diag = Some (Inr (Array xs'), diag)"
      by (simp add: Array ov on_array_def)
    from good have 2: "CheckConst_visit G (Suc n) (Array xs') () = Some (Inr True, ())"
      by (simp add: ov on_array_def CheckConst_on_array_loop)
    from 1 2 good(2) show ?thesis
      by (simp del: CheckConst_visit.simps MakeConst_visit.simps)
  qed (use const rf in \<open>simp_all add: CheckConst_def ConstManipulations_def ret_apply\<close>)
qed

text \<open>
  Claim C1, amended: for every node that contains no variable reference and no
  define-value reference, if \<open>is_const\<close> holds of it then \<open>make_const\<close> returns, without
  a diagnostic, a node of which \<open>is_const\<close> holds again.
\<close>

theorem make_const_preserves_is_const:
  assumes "is_const G n v = Some (Inr True)" and "ref_free v"
  shows "\<exists>r. make_const G n v diag = Some (Inr r, diag) \<and> is_const G n r = Some (Inr True)"
proof -
  from assms(1) have "CheckConst_visit G n v () = Some (Inr True, ())"
    by (auto simp: is_const_def)
  from fold_keeps_constancy [OF this assms(2), of diag] show ?thesis
    by (auto simp: is_const_def make_const_def)
qed

theorem make_const_preserves_is_const_witness:
  "is_const example_env 5 example_constant_array = Some (Inr True)
   \<and> ref_free example_constant_array
   \<and> make_const example_env 5 example_constant_array [] = Some (Inr example_folded_array, [])
   \<and> is_const example_env 5 example_folded_array = Some (Inr True)"
proof -
  have 1: "is_const example_env 5 example_constant_array = Some (Inr True)"
    unfolding fuel5
    by (simp add: is_const_def example_constant_array_def CheckConst_def ConstManipulations_def
          on_array_def seq_def ret_def)
  have 2: "ref_free example_constant_array"
    by (simp add: example_constant_array_def)
  have 3: "make_const example_env 5 example_constant_array [] = Some (Inr example_folded_array, [])"
    unfolding fuel5
    by (simp add: make_const_def example_constant_array_def example_folded_array_def
          MakeConst_def ConstManipulations_def on_array_def seq_def ret_def)
  from make_const_preserves_is_const [OF 1 2, of "[]"] 3 1 2 show ?thesis
    by simp
qed

section \<open>Folding a concatenation\<close>

lemma MakeConst_concat_prefix:
  "MakeConst_concat G self pre acc s = Some (Inr v, s1) \<Longrightarrow>
   \<exists>acc'. v = Trivial op_string (Some acc') \<and>
     (\<forall>ys. MakeConst_concat G self (pre @ ys) acc s = MakeConst_concat G self ys acc' s1)"
proof (induction pre arbitrary: acc s)
  case Nil
  then show ?case by (auto simp: ret_def)
next
  case (Cons i rest)
  from Cons.prems obtain res sa has sb t sc u sd str se
    where 1: "self i s = Some (Inr res, sa)"
      and 2: "has_get_string res sa = Some (Inr has, sb)"
      and 3: "vtype res sb = Some (Inr t, sc)"
      and 4: "kphp_error has (''expected type convertible to string, but got: '' @ op_str G t) sc
                = Some (Inr u, sd)"
      and 5: "get_string res sd = Some (Inr str, se)"
      and 6: "MakeConst_concat G self rest (acc @ str) se = Some (Inr v, s1)"
    unfolding MakeConst_concat.simps seq_returns by blast
  from Cons.IH [OF 6] obtain acc' where v: "v = Trivial op_string (Some acc')"
    and ys: "\<And>ys. MakeConst_concat G self (rest @ ys) (acc @ str) se
                = MakeConst_concat G self ys acc' s1"
    by blast
  have "MakeConst_concat G self ((i # rest) @ ys) acc s = MakeConst_concat G self ys acc' s1"
    for ys
    using 1 2 3 4 5 ys [of ys] by (simp add: seq_def)
  with v show ?case by blast
qed

text \<open>
  Claim C6.  Let the children before \<open>i\<close> of a concatenation or string-build node fold
  without failure, and let \<open>i\<close> fold to a node \<open>res\<close> of kind \<open>t\<close> that has no string
  representation.  Then folding the node reports the message that names the tag of \<open>t\<close>
  and crashes in \<open>get_string\<close>; the children after \<open>i\<close> are not folded (whatever they
  are, the outcome and the channel are the same).
\<close>

theorem concat_fold_stops_at_child_without_string:
  assumes "op = op_concat \<or> op = op_string_build"
    and "make_const G (Suc n) (Other op str pre) diag = Some (Inr v, diag1)"
    and "make_const G n i diag1 = Some (Inr res, diag2)"
    and "vtype res diag2 = Some (Inr t, diag2)"
    and "get_string_opt res = None"
  shows "make_const G (Suc n) (Other op str (pre @ i # rest)) diag =
           Some (Inl GetStringUnsupported,
                 diag2 @ [''expected type convertible to string, but got: '' @ op_str G t])"
proof -
  let ?self = "MakeConst_visit G n"
  have nc: "make_const G (Suc n) (Other op str xs) = MakeConst_concat G ?self xs []" for xs
    using assms(1) by (auto simp: make_const_def MakeConst_def ConstManipulations_def)
  from assms(2) have "MakeConst_concat G ?self pre [] diag = Some (Inr v, diag1)"
    by (simp add: nc)
  from MakeConst_concat_prefix [OF this] obtain acc
    where "MakeConst_concat G ?self (pre @ i # rest) [] diag
             = MakeConst_concat G ?self (i # rest) acc diag1"
    by blast
  moreover from assms(4) have "res \<noteq> Null"
    by (auto simp: abort_def)
  then have "has_get_string res diag2 = Some (Inr False, diag2)"
    and "get_string res s = Some (Inl GetStringUnsupported, s)" for s :: "string list"
    using assms(5) by (cases res; simp add: ret_def abort_def)+
  then have "MakeConst_concat G ?self (i # rest) acc diag1 =
           Some (Inl GetStringUnsupported,
                 diag2 @ [''expected type convertible to string, but got: '' @ op_str G t])"
    using assms(3,4) by (simp add: seq_def make_const_def kphp_error_def)
  ultimately show ?thesis
    by (simp add: nc)
qed

theorem concat_fold_stops_at_child_without_string_witness:
  "make_const example_env 2
     (Other op_concat None
        ([Trivial op_string (Some ''a'')] @ Array [] # [Trivial op_string (Some ''c''), Null]))
     [''earlier''] =
   Some (Inl GetStringUnsupported,
         [''earlier'', ''expected type convertible to string, but got: array''])"
proof -
  have 1: "op_concat = op_concat \<or> op_concat = op_string_build"
    by simp
  have 2: "make_const example_env (Suc 1) (Other op_concat None [Trivial op_string (Some ''a'')])
             [''earlier''] = Some (Inr (Trivial op_string (Some ''a'')), [''earlier''])"
    by (simp add: make_const_def MakeConst_def ConstManipulations_def seq_def ret_def
          kphp_error_def)
  have 3: "make_const example_env 1 (Array []) [''earlier''] = Some (Inr (Array []), [''earlier''])"
    by (simp add: make_const_def MakeConst_def ConstManipulations_def on_array_def ret_def)
  have 4: "vtype (Array []) [''earlier''] = Some (Inr op_array, [''earlier''])"
    by (simp add: ret_def)
  have 5: "get_string_opt (Array []) = None"
    by simp
  have 6: "op_str example_env op_array = ''array''"
    by (simp add: example_env_def)
  show ?thesis
    using concat_fold_stops_at_child_without_string
      [OF 1 2 3 4 5, of "[Trivial op_string (Some ''c''), Null]"]
    by (simp add: 6 fuel2)
qed

section \<open>The array orchestration of the dispatch core\<close>

lemma seq_log: "seq (log e) f trace = f () (trace @ [e])"
  by (simp add: seq_def log_def)

lemma tracing_probe:
  "cur \<noteq> Null \<Longrightarrow>
   (case cur of
      Null \<Rightarrow> abort NullDeref
    | DoubleArrow k v \<Rightarrow> on_array_double_arrow (tracing_hooks accept) k v
    | _ \<Rightarrow> on_array_value (tracing_hooks accept) (pre @ cur # rest) (length pre)) trace
   = Some (Inr (accept cur, cur), trace @ [probe_event (length pre, cur)])"
  by (cases cur) (simp_all add: tracing_hooks_def seq_log ret_def)

lemma on_array_loop_trace:
  "Null \<notin> set rest \<Longrightarrow>
   on_array_loop (tracing_hooks accept) pre rest trace =
     Some (Inr (), trace @
       (let accepted = length (takeWhile accept rest) in
        if accepted = length rest
        then map probe_event (enumerate (length pre) rest) @ [Finish (pre @ rest)]
        else map probe_event (enumerate (length pre) (take (Suc accepted) rest))
             @ [NonConst (Array (pre @ rest))]))"
proof (induction rest arbitrary: pre trace)
  case Nil
  show ?case by (simp add: tracing_hooks_def log_def)
next
  case (Cons cur rest)
  then have cur: "cur \<noteq> Null" and rest: "Null \<notin> set rest" by auto
  have nc: "on_non_const (tracing_hooks accept) = (\<lambda>v. log (NonConst v))"
    by (simp add: tracing_hooks_def ConstManipulations_def)
  show ?case
  proof (cases "accept cur")
    case True
    show ?thesis
      using Cons.IH [OF rest, of "pre @ [cur]"] True
      by (simp add: seq_def tracing_probe [OF cur] Let_def)
  next
    case False
    then show ?thesis
      by (simp add: seq_def tracing_probe [OF cur] nc log_def)
  qed
qed

text \<open>
  Claim C7.  On an array node (whose element pointers are not empty) the orchestration
  of the template calls the hooks exactly as \<open>expected_trace\<close> lists them: the probes
  in element order, \<open>on_array_double_arrow\<close> for key-value elements and \<open>on_array_value\<close>
  for the others, stopping at the first rejection with \<open>on_non_const\<close> of the whole
  array node, and \<open>on_array_finish\<close> only when every probe accepted.
\<close>

theorem on_array_calls:
  assumes "Null \<notin> set args"
  shows "visit (tracing_hooks accept) (Array args) [] = Some (Inr (), expected_trace accept args)"
proof -
  have "on_array_override (tracing_hooks accept) = None"
    by (simp add: tracing_hooks_def ConstManipulations_def)
  then show ?thesis
    using on_array_loop_trace [OF assms, of accept "[]" "[]"]
    by (simp add: on_array_def expected_trace_def Let_def)
qed

theorem on_array_calls_witness:
  "visit (tracing_hooks (\<lambda>v. True)) (Array example_array) [] =
     Some (Inr (), [ProbeValue 0,
        ProbeDoubleArrow (Trivial op_string (Some ''x'')) (Trivial op_true None),
        ProbeValue 2, ProbeValue 3, Finish example_array])
   \<and> visit (tracing_hooks no_null_literal) (Array example_array) [] =
     Some (Inr (), [ProbeValue 0,
        ProbeDoubleArrow (Trivial op_string (Some ''x'')) (Trivial op_true None),
        ProbeValue 2, NonConst (Array example_array)])"
proof -
  have n: "Null \<notin> set example_array"
    by (simp add: example_array_def)
  show ?thesis
    using on_array_calls [OF n, of "\<lambda>v. True"] on_array_calls [OF n, of no_null_literal]
    by (simp add: expected_trace_def example_array_def enumerate_eq_zip upt_rec)
qed

section \<open>Hashing an array\<close>

lemma ArrayHash_elements_fold:
  "length steps = length xs \<Longrightarrow>
   \<forall>i<length xs. \<forall>h. seq (get_actual_value G (xs ! i)) self h = Some (Inr (), (steps ! i) h) \<Longrightarrow>
   ArrayHash_elements G self xs h = Some (Inr (), fold (\<lambda>f. f) steps h)"
proof (induction xs arbitrary: steps h)
  case Nil
  then show ?case by (simp add: ret_def)
next
  case (Cons it rest)
  from Cons.prems(1) obtain f fs where steps: "steps = f # fs" and len: "length fs = length rest"
    by (cases steps) auto
  from Cons.prems(2) have first: "seq (get_actual_value G it) self h = Some (Inr (), f h)"
    unfolding steps by fastforce
  from Cons.prems(2)
  have "\<forall>i<length rest. \<forall>h. seq (get_actual_value G (rest ! i)) self h
          = Some (Inr (), (fs ! i) h)"
    unfolding steps by fastforce
  note rest = Cons.IH [OF len this, of "f h"]
  from first obtain a s1 where a: "get_actual_value G it h = Some (Inr a, s1)"
    and b: "self a s1 = Some (Inr (), f h)"
    unfolding seq_returns by blast
  show ?case
    using a b rest by (simp add: seq_def steps)
qed

text \<open>
  Claim C3.  \<open>feed_hash\<close> replaces the accumulator \<open>h\<close> by \<open>h * 56235515617499 + v\<close>.
  On an array node whose elements, resolved to their actual values, are hashed by the
  accumulator updates \<open>step 0\<close>, \<open>step 1\<close>, ..., the hasher feeds the element count, then
  536536536536960, then applies the updates of the elements from left to right, then feeds
  288288288288069.
\<close>

theorem array_hash_feeds:
  assumes "\<forall>i<length xs. \<forall>h.
     seq (get_actual_value G (xs ! i)) (ArrayHash_visit G n) h = Some (Inr (), step i h)"
  shows "feed_hash v h = Some (Inr (), h * 56235515617499 + v)
    \<and> ArrayHash_visit G (Suc n) (Array xs) h =
        Some (Inr (),
          fold step [0..<length xs]
            ((h * 56235515617499 + of_nat (length xs)) * 56235515617499 + 536536536536960)
          * 56235515617499 + 288288288288069)
    \<and> calc_hash G (Suc n) (Array xs) =
        Some (Inr
          (fold step [0..<length xs] (of_nat (length xs) * 56235515617499 + 536536536536960)
           * 56235515617499 + 288288288288069))"
proof -
  have "ArrayHash_elements G (ArrayHash_visit G n) xs h' =
          Some (Inr (), fold step [0..<length xs] h')" for h'
    using ArrayHash_elements_fold [of "map step [0..<length xs]" xs G "ArrayHash_visit G n" h']
      assms
    by (simp add: fold_map comp_def)
  then show ?thesis
    by (simp add: calc_hash_def ArrayHash_def ConstManipulations_def seq_def ret_def
          feed_hash_def HASH_MULT_def MAGIC1_def MAGIC2_def)
qed

theorem array_hash_feeds_witness:
  "ArrayHash_visit example_env 2 (Array one_two) 7 =
     Some (Inr (),
       ((((7 * 56235515617499 + 2) * 56235515617499 + 536536536536960)
          * 56235515617499 + 10) * 56235515617499 + 10) * 56235515617499 + 288288288288069)
   \<and> calc_hash example_env 2 (Array one_two) =
     Some (Inr ((((2 * 56235515617499 + 536536536536960)
          * 56235515617499 + 10) * 56235515617499 + 10) * 56235515617499 + 288288288288069))"
proof -
  have h: "\<forall>i<length one_two. \<forall>h.
     seq (get_actual_value example_env (one_two ! i)) (ArrayHash_visit example_env 1) h
       = Some (Inr (), h * 56235515617499 + 10)"
    by (simp add: one_two_def All_less_Suc ArrayHash_def ConstManipulations_def
          feed_hash_string_def feed_hash_def HASH_MULT_def example_env_def)
  have l: "length one_two = Suc (Suc 0)"
    by (simp add: one_two_def)
  show ?thesis
    using array_hash_feeds [OF h, of _ 7]
    unfolding fuel2 l by (simp add: upt_rec)
qed

section \<open>Hashing a binary operation\<close>

lemma seq_feed_hash: "seq (feed_hash v) f h = f () (h * HASH_MULT + v)"
  by (simp add: seq_def feed_hash_def)

lemma ArrayHash_on_binary:
  "on_binary (ArrayHash G self) = (\<lambda>op l r.
     seq (self l) (\<lambda>_.
     seq (feed_hash_string G (op_str G (BinaryOp op))) (\<lambda>_. self r)))"
  by (simp add: ArrayHash_def)

lemma ArrayHash_on_array:
  "on_array_override (ArrayHash G self) = Some (\<lambda>args.
     seq (feed_hash (of_nat (length args))) (\<lambda>_.
     seq (feed_hash MAGIC1) (\<lambda>_.
     seq (ArrayHash_elements G self args) (\<lambda>_. feed_hash MAGIC2))))"
  by (simp add: ArrayHash_def)

text \<open>
  Claim C8.  The hasher visits the left operand, feeds the hash of the operator's tag,
  then visits the right operand.  The hash depends on the order of the operands: the
  constant arrays \<open>nested_a\<close> and \<open>nested_b\<close> under \<open>op_add\<close> hash differently
  in the two orders, whatever \<open>string_hash\<close> and \<open>OpInfo::str\<close> are.
\<close>

theorem binary_hash_order:
  "ArrayHash_visit G (Suc n) (Binary op l r) =
     seq (ArrayHash_visit G n l) (\<lambda>_.
     seq (feed_hash (string_hash G (op_str G (BinaryOp op)))) (\<lambda>_.
       ArrayHash_visit G n r))
   \<and> (\<exists>h1 h2. calc_hash G 5 (Binary op_add nested_a nested_b) = Some (Inr h1)
        \<and> calc_hash G 5 (Binary op_add nested_b nested_a) = Some (Inr h2)
        \<and> h1 \<noteq> h2)
   \<and> is_const G 4 nested_a = Some (Inr True) \<and> is_const G 4 nested_b = Some (Inr True)"
proof -
  have ab: "calc_hash G 5 (Binary op_add nested_a nested_b) = Some
      (Inr (string_hash G (op_str G (BinaryOp op_add)) * 56235515617499 ^ 9 + 2529343802420968990))"
    unfolding fuel5
    apply (simp add: calc_hash_def nested_a_def nested_b_def seq_feed_hash feed_hash_string_def
        ArrayHash_on_binary ArrayHash_on_array)
    apply (simp add: seq_def feed_hash_def ret_def HASH_MULT_def MAGIC1_def MAGIC2_def ring_distribs)
    done
  have ba: "calc_hash G 5 (Binary op_add nested_b nested_a) = Some
      (Inr (string_hash G (op_str G (BinaryOp op_add)) * 56235515617499 ^ 9 + 7049872314231413150))"
    unfolding fuel5
    apply (simp add: calc_hash_def nested_a_def nested_b_def seq_feed_hash feed_hash_string_def
        ArrayHash_on_binary ArrayHash_on_array)
    apply (simp add: seq_def feed_hash_def ret_def HASH_MULT_def MAGIC1_def MAGIC2_def ring_distribs)
    done
  have c: "is_const G 4 nested_a = Some (Inr True) \<and> is_const G 4 nested_b = Some (Inr True)"
    unfolding fuel4
    by (simp add: is_const_def nested_a_def nested_b_def CheckConst_def
        ConstManipulations_def on_array_def seq_def ret_def)
  show ?thesis
    using ab ba c by (simp add: feed_hash_string_def ArrayHash_on_binary)
qed

theorem binary_hash_order_witness:
  "ArrayHash_visit example_env 2
     (Binary op_add (Trivial op_int_const (Some ''2'')) (Trivial op_int_const (Some ''3''))) 0
   = Some (Inr (), (10 * 56235515617499 + 1) * 56235515617499 + 10)"
  using binary_hash_order [of example_env 1 op_add "Trivial op_int_const (Some ''2'')"
      "Trivial op_int_const (Some ''3'')"]
  by (simp add: fuel2 ArrayHash_def ConstManipulations_def seq_def feed_hash_def
        feed_hash_string_def HASH_MULT_def example_env_def)

section \<open>Formatting an array\<close>

lemma VertexPtrFormatter_elements_concat:
  "length shown = length xs \<Longrightarrow>
   \<forall>i<length xs. seq (get_actual_value G (xs ! i)) self () = Some (Inr (shown ! i), ()) \<Longrightarrow>
   VertexPtrFormatter_elements G self xs res () =
     Some (Inr (res @ concat (map (\<lambda>x. x @ '', '') shown)), ())"
proof (induction xs arbitrary: shown res)
  case Nil
  then show ?case by (simp add: ret_def)
next
  case (Cons it rest)
  from Cons.prems(1) obtain x xs' where shown: "shown = x # xs'" and len: "length xs' = length rest"
    by (cases shown) auto
  from Cons.prems(2) have first: "seq (get_actual_value G it) self () = Some (Inr x, ())"
    unfolding shown by fastforce
  from Cons.prems(2)
  have "\<forall>i<length rest. seq (get_actual_value G (rest ! i)) self ()
          = Some (Inr (xs' ! i), ())"
    unfolding shown by fastforce
  note rest = Cons.IH [OF len this, of "res @ x @ '', ''"]
  from first obtain a where a: "get_actual_value G it () = Some (Inr a, ())"
    and b: "self a () = Some (Inr x, ())"
    unfolding seq_returns by auto
  show ?case
    using a b rest by (simp add: seq_def shown)
qed

text \<open>
  Claim C9.  On an array node whose elements, resolved to their actual values, are
  rendered as \<open>shown 0\<close>, \<open>shown 1\<close>, ..., \<open>to_string\<close> returns the concatenation of
  the renderings, each followed by \<open>", "\<close>, the last one included.
\<close>

theorem to_string_array:
  assumes "\<forall>i<length xs.
     seq (get_actual_value G (xs ! i)) (VertexPtrFormatter_visit G n) ()
       = Some (Inr (shown i), ())"
  shows "to_string G (Suc n) (Array xs) =
           Some (Inr (concat (map (\<lambda>i. shown i @ '', '') [0..<length xs])))"
  using VertexPtrFormatter_elements_concat
    [of "map shown [0..<length xs]" xs G "VertexPtrFormatter_visit G n" "[]"] assms
  by (simp add: to_string_def VertexPtrFormatter_def ConstManipulations_def comp_def)

theorem to_string_array_witness:
  "to_string example_env 2 (Array one_two) = Some (Inr ''1:int_const, 2:int_const, '')"
proof -
  have h: "\<forall>i<length one_two.
     seq (get_actual_value example_env (one_two ! i)) (VertexPtrFormatter_visit example_env 1) ()
       = Some (Inr ([''1:int_const'', ''2:int_const''] ! i), ())"
    by (simp add: one_two_def All_less_Suc VertexPtrFormatter_def ConstManipulations_def
          example_env_def ret_apply)
  have l: "length one_two = Suc (Suc 0)"
    by (simp add: one_two_def)
  show ?thesis
    using to_string_array [OF h]
    unfolding fuel2 l by (simp add: upt_rec)
qed

end
